theory Spec2Isabelle
  imports Main "HOL-Library.Multiset"
begin

chapter \<open>The model\<close>

unbundle bit_operations_syntax

section \<open>Errors\<close>

text \<open>
  Every \<^verbatim>\<open>throw\<close> of the TypeScript sources is a value of this type. The first three
  are the SDK's own \<^verbatim>\<open>DripsErrors\<close>. \<open>NUMERIC_FAULT\<close> and \<open>INVALID_ARGUMENT\<close> are the
  errors of the ethers (v5) \<^verbatim>\<open>BigNumber\<close> class the sources compute with, each with the
  fault or the message the library gives. \<open>Passed\<close> is an error raised by the runtime
  below the SDK (the network, the JSON parser) that the SDK lets through unchanged.

  \<open>GarbledLiteral\<close> is not an error of the code. \<^verbatim>\<open>BigNumber.from\<close> accepts a hexadecimal
  literal whose prefix is written \<^verbatim>\<open>0X\<close> and stores a string that is not a numeral; what
  arithmetic on such a number does is decided by the big-number package below ethers and
  is not modelled. \<open>GarbledLiteral\<close> marks the place where the model stops following the
  code, and no property below says what the code does there.
\<close>

datatype error =
    InvalidArgument
  | InvalidAddress
  | SubgraphQueryError string
  | NUMERIC_FAULT string
  | INVALID_ARGUMENT string
  | GarbledLiteral
  | Passed string

text \<open>Sequencing of fallible steps: the first error ends the computation.\<close>

definition and_then :: "error + 'a \<Rightarrow> ('a \<Rightarrow> error + 'b) \<Rightarrow> error + 'b" where
  "and_then r f = (case r of Inl e \<Rightarrow> Inl e | Inr v \<Rightarrow> f v)"

section \<open>The BigNumber operations used by the sources\<close>

text \<open>
  An ethers (v5) \<^verbatim>\<open>BigNumber\<close> is an immutable integer of any magnitude and sign; it is
  modelled by the integer it denotes. The bitwise operations and the shifts of the class
  refuse a negative operand with a \<^verbatim>\<open>NUMERIC_FAULT\<close>.
\<close>

type_synonym BigNumber = int

definition shl :: "BigNumber \<Rightarrow> nat \<Rightarrow> error + BigNumber" where
  "shl x n = (if x < 0 then Inl (NUMERIC_FAULT ''negative-width'') else Inr (push_bit n x))"

definition shr :: "BigNumber \<Rightarrow> nat \<Rightarrow> error + BigNumber" where
  "shr x n = (if x < 0 then Inl (NUMERIC_FAULT ''negative-width'') else Inr (drop_bit n x))"

definition bn_or :: "BigNumber \<Rightarrow> BigNumber \<Rightarrow> error + BigNumber" where
  "bn_or x y =
     (if x < 0 \<or> y < 0 then Inl (NUMERIC_FAULT ''unbound-bitwise-result'') else Inr (x OR y))"

definition bn_and :: "BigNumber \<Rightarrow> BigNumber \<Rightarrow> error + BigNumber" where
  "bn_and x y =
     (if x < 0 \<or> y < 0 then Inl (NUMERIC_FAULT ''unbound-bitwise-result'') else Inr (x AND y))"

section \<open>Reading and printing a BigNumber\<close>

subsection \<open>Numerals\<close>

definition digit_char :: "nat \<Rightarrow> char" where
  "digit_char d = ''0123456789abcdef'' ! d"

definition digit_value :: "char \<Rightarrow> nat option" where
  "digit_value c =
     (let k = (of_char c :: nat) in
      if 48 \<le> k \<and> k \<le> 57 then Some (k - 48)
      else if 97 \<le> k \<and> k \<le> 102 then Some (k - 87)
      else if 65 \<le> k \<and> k \<le> 70 then Some (k - 55)
      else None)"

fun digits :: "nat \<Rightarrow> nat \<Rightarrow> nat list" where
  "digits b n = (if b < 2 \<or> n < b then [n] else digits b (n div b) @ [n mod b])"

declare digits.simps [simp del]

definition render :: "nat \<Rightarrow> nat \<Rightarrow> string" where
  "render b n = map digit_char (digits b n)"

fun parse_acc :: "nat \<Rightarrow> nat \<Rightarrow> string \<Rightarrow> nat option" where
  "parse_acc b acc [] = Some acc"
| "parse_acc b acc (c # cs) =
     (case digit_value c of
        None \<Rightarrow> None
      | Some d \<Rightarrow> if d < b then parse_acc b (acc * b + d) cs else None)"

text \<open>A numeral in base \<open>b\<close> has at least one digit, and digits of that base only.\<close>

definition numeral_value :: "nat \<Rightarrow> string \<Rightarrow> nat option" where
  "numeral_value b s = (if s = [] then None else parse_acc b 0 s)"

subsection \<open>Strings\<close>

text \<open>
  \<^verbatim>\<open>BigNumber.from(string)\<close> tests the string against two patterns, in this order:
  \<^verbatim>\<open>/^-?0x[0-9a-f]+$/i\<close>, a hexadecimal literal, whose prefix the flag \<^verbatim>\<open>i\<close> lets be \<^verbatim>\<open>0x\<close>
  or \<^verbatim>\<open>0X\<close>, and \<^verbatim>\<open>/^-?[0-9]+$/\<close>, a decimal literal. A string that matches neither is
  refused with the message \<open>invalid BigNumber string\<close>. \<open>unsign\<close> takes the optional
  minus sign off.
\<close>

definition unsign :: "string \<Rightarrow> string" where
  "unsign s = (if take 1 s = ''-'' then drop 1 s else s)"


definition unsigned_literal :: "string \<Rightarrow> error + nat" where
  "unsigned_literal s =
     (case (if take 2 s = ''0x'' \<or> take 2 s = ''0X'' then numeral_value 16 (drop 2 s) else None) of
        Some n \<Rightarrow> if take 2 s = ''0x'' then Inr n else Inl GarbledLiteral
      | None \<Rightarrow>
          (case numeral_value 10 s of
             Some n \<Rightarrow> Inr n
           | None \<Rightarrow> Inl (INVALID_ARGUMENT ''invalid BigNumber string'')))"

definition from_string :: "string \<Rightarrow> error + BigNumber" where
  "from_string s =
     and_then (unsigned_literal (unsign s)) (\<lambda>n.
       Inr (if take 1 s = ''-'' then - int n else int n))"

text \<open>
  \<^verbatim>\<open>toString()\<close> prints the decimal numeral. \<^verbatim>\<open>toHexString()\<close> returns the string the
  object stores: for a number that was made from a value (by arithmetic, or from a
  decimal literal) the lower-case hexadecimal numeral, padded with one zero to an even
  number of digits.
\<close>

definition toString :: "BigNumber \<Rightarrow> string" where
  "toString v = (if v < 0 then ''-'' @ render 10 (nat (- v)) else render 10 (nat v))"





subsection \<open>Numbers, bigints and byte arrays\<close>

text \<open>
  A JavaScript number is a double. \<^verbatim>\<open>BigNumber.from\<close> tells apart a number with a
  fractional part (\<^verbatim>\<open>value % 1\<close> is truthy: the fault \<open>underflow\<close>), a number whose
  magnitude is \<open>2^53 - 1\<close> or more, infinities included (the fault \<open>overflow\<close>), the value
  \<^verbatim>\<open>NaN\<close> (which passes both tests and is then read as the string \<^verbatim>\<open>NaN\<close>), and the other
  integers, which it reads from their decimal print. An integral double is given by its
  integer; the integers beyond \<open>2^53\<close> that are not doubles change nothing, as every
  number of that size is refused.
\<close>

datatype number = Integral int | Fractional | NaN | PlusInfinity | MinusInfinity

definition MAX_SAFE :: int where
  "MAX_SAFE = 2 ^ 53 - 1"

definition from_number :: "number \<Rightarrow> error + BigNumber" where
  "from_number x =
     (case x of
        Fractional \<Rightarrow> Inl (NUMERIC_FAULT ''underflow'')
      | NaN \<Rightarrow> Inl (INVALID_ARGUMENT ''invalid BigNumber string'')
      | PlusInfinity \<Rightarrow> Inl (NUMERIC_FAULT ''overflow'')
      | MinusInfinity \<Rightarrow> Inl (NUMERIC_FAULT ''overflow'')
      | Integral n \<Rightarrow>
          if n \<ge> MAX_SAFE \<or> n \<le> - MAX_SAFE then Inl (NUMERIC_FAULT ''overflow'')
          else from_string (toString n))"

text \<open>
  The type \<^verbatim>\<open>BigNumberish\<close>: a \<^verbatim>\<open>BigNumber\<close>, a string, a number, a bigint, or an array of
  numbers. \<^verbatim>\<open>BigNumber.from\<close> returns a \<^verbatim>\<open>BigNumber\<close> as it is, reads a bigint from its
  decimal print, and reads an array whose elements are all below 256 from the
  hexadecimal print of its bytes (\<^verbatim>\<open>hexlify\<close>); any other array is refused with the message
  \<open>invalid BigNumber value\<close>. The elements of an array are natural numbers here.
\<close>

datatype BigNumberish =
    BN BigNumber
  | Str string
  | Num number
  | BigInt int
  | Bytes "nat list"

definition hexlify :: "nat list \<Rightarrow> string" where
  "hexlify bytes = ''0x'' @ concat (map (\<lambda>b. [digit_char (b div 16), digit_char (b mod 16)]) bytes)"

definition BigNumber_from :: "BigNumberish \<Rightarrow> error + BigNumber" where
  "BigNumber_from x =
     (case x of
        BN b \<Rightarrow> Inr b
      | Str s \<Rightarrow> from_string s
      | Num n \<Rightarrow> from_number n
      | BigInt i \<Rightarrow> from_string (toString i)
      | Bytes bytes \<Rightarrow>
          if list_all (\<lambda>b. b < 256) bytes then from_string (hexlify bytes)
          else Inl (INVALID_ARGUMENT ''invalid BigNumber value''))"

section \<open>DripsReceiverConfig\<close>

text \<open>
  The class has four read-only fields. \<^verbatim>\<open>toUint256\<close> reads three of them, and the
  constructor calls it on \<^verbatim>\<open>this\<close> before \<^verbatim>\<open>asUint256\<close> is assigned, so the three fields
  it reads form the base record and the class is its extension. The fields hold
  \<^verbatim>\<open>BigNumber\<close> objects, which \<^verbatim>\<open>BigNumber.from\<close> in \<^verbatim>\<open>toUint256\<close> returns as they are.
\<close>

record DripsFields =
  start :: BigNumber
  duration :: BigNumber
  amountPerSec :: BigNumber

record DripsReceiverConfig = DripsFields +
  asUint256 :: BigNumber

definition toUint256 :: "'a DripsFields_scheme \<Rightarrow> error + BigNumber" where
  "toUint256 config =
     and_then (shl (amountPerSec config) 32) (\<lambda>c1.
     and_then (bn_or c1 (start config)) (\<lambda>c2.
     and_then (shl c2 32) (\<lambda>c3.
     bn_or c3 (duration config))))"

text \<open>
  The constructor \<^verbatim>\<open>(amountPerSec, duration = 0, start = 0)\<close> takes three
  \<^verbatim>\<open>BigNumberish\<close> arguments: an omitted one is \<open>None\<close> and takes the default, the number
  0. It reads \<open>amountPerSec\<close> for the test against 0, then \<open>start\<close>, \<open>duration\<close> and
  \<open>amountPerSec\<close> again for the fields.
\<close>

definition or_default :: "BigNumberish option \<Rightarrow> BigNumberish" where
  "or_default x = (case x of None \<Rightarrow> Num (Integral 0) | Some v \<Rightarrow> v)"

definition new_DripsReceiverConfig ::
  "BigNumberish \<Rightarrow> BigNumberish option \<Rightarrow> BigNumberish option
     \<Rightarrow> error + DripsReceiverConfig" where
  "new_DripsReceiverConfig amountPerSec' duration' start' =
     and_then (BigNumber_from amountPerSec') (\<lambda>tested.
       if tested = 0 then Inl InvalidArgument
       else
         and_then (BigNumber_from (or_default start')) (\<lambda>s.
         and_then (BigNumber_from (or_default duration')) (\<lambda>d.
         and_then (BigNumber_from amountPerSec') (\<lambda>a.
           let this = \<lparr>start = s, duration = d, amountPerSec = a\<rparr>
           in and_then (toUint256 this) (\<lambda>u.
                Inr \<lparr>start = start this, duration = duration this,
                     amountPerSec = amountPerSec this, asUint256 = u\<rparr>)))))"

text \<open>
  \<^verbatim>\<open>fromUint256\<close> reads its \<^verbatim>\<open>BigNumberish\<close> argument and calls the constructor with three
  \<^verbatim>\<open>BigNumber\<close> objects. The mask \<^verbatim>\<open>2 ** 32 - 1\<close> is a number that \<^verbatim>\<open>BigNumber.from\<close> reads
  as itself.
\<close>

definition fromUint256 :: "BigNumberish \<Rightarrow> error + DripsReceiverConfig" where
  "fromUint256 dripsConfig =
     and_then (BigNumber_from dripsConfig) (\<lambda>config.
     and_then (shr config 64) (\<lambda>amountPerSec'.
     and_then (bn_and config (2 ^ 32 - 1)) (\<lambda>duration'.
     and_then (shr config 32) (\<lambda>shifted.
     and_then (bn_and shifted (2 ^ 32 - 1)) (\<lambda>start'.
     new_DripsReceiverConfig (BN amountPerSec') (Some (BN duration')) (Some (BN start')))))))"

section \<open>utils.ts\<close>

text \<open>
  \<^verbatim>\<open>String.prototype.split\<close> with a separator of one character, and reading an array at an
  index: JavaScript gives \<^verbatim>\<open>undefined\<close> (here \<open>None\<close>) beyond the end.
\<close>

fun split_on :: "char \<Rightarrow> string \<Rightarrow> string list" where
  "split_on sep [] = [[]]"
| "split_on sep (c # cs) =
     (if c = sep then [] # split_on sep cs
      else (case split_on sep cs of [] \<Rightarrow> [[c]] | p # ps \<Rightarrow> (c # p) # ps))"

definition at_index :: "'a list \<Rightarrow> nat \<Rightarrow> 'a option" where
  "at_index xs i = (if i < length xs then Some (xs ! i) else None)"

record UserAssetConfigIdParts =
  userId :: "string option"
  assetId :: "string option"

definition destructUserAssetConfigId :: "string \<Rightarrow> error + UserAssetConfigIdParts" where
  "destructUserAssetConfigId configId =
     (if configId = [] \<or> CHR ''-'' \<notin> set configId then Inl InvalidArgument
      else Inr \<lparr>userId = at_index (split_on CHR ''-'' configId) 0,
               assetId = at_index (split_on CHR ''-'' configId) 1\<rparr>)"

text \<open>
  \<^verbatim>\<open>guardAgainstInvalidAddress\<close> is imported from a module that is not among the sources:
  the test it applies is the parameter \<open>isAddress\<close>.
\<close>

definition getAssetIdFromAddress :: "(string \<Rightarrow> bool) \<Rightarrow> string \<Rightarrow> error + string" where
  "getAssetIdFromAddress isAddress erc20TokenAddress =
     (if \<not> isAddress erc20TokenAddress then Inl InvalidAddress
      else and_then (from_string erc20TokenAddress) (\<lambda>b. Inr (toString b)))"


text \<open>
  The usual written form of an address, \<^verbatim>\<open>0x\<close> and forty hexadecimal digits; a decimal
  numeral; and a hexadecimal string as \<^verbatim>\<open>toHexString\<close> prints one: \<^verbatim>\<open>0x\<close> and an even,
  positive number of digits, the letters in lower case.
\<close>

definition hex_address :: "string \<Rightarrow> bool" where
  "hex_address a \<longleftrightarrow>
     take 2 a = ''0x'' \<and> length a = 42 \<and> list_all (\<lambda>c. digit_value c \<noteq> None) (drop 2 a)"



section \<open>DripsSubgraphClient.ts\<close>

subsection \<open>query\<close>

text \<open>
  The outcome of \<^verbatim>\<open>fetch\<close> and of \<^verbatim>\<open>resp.json()\<close> is given to the model: either may
  reject, and \<^verbatim>\<open>query\<close> has no handler, so the rejection is the rejection of \<^verbatim>\<open>query\<close>.
  The parsed body may be \<^verbatim>\<open>null\<close>, and its \<^verbatim>\<open>errors\<close> member may be absent; an entry of
  \<^verbatim>\<open>errors\<close> is kept as the text \<^verbatim>\<open>JSON.stringify\<close> gives for it.
\<close>

record 'd ResponseContent =
  data :: "'d option"
  errors :: "string list option"

record 'd Response =
  status :: int
  statusText :: string
  json :: "error + 'd ResponseContent option"

definition has_errors :: "'d ResponseContent option \<Rightarrow> bool" where
  "has_errors responseContent =
     (case responseContent of
        None \<Rightarrow> False
      | Some c \<Rightarrow> (case errors c of None \<Rightarrow> False | Some es \<Rightarrow> length es \<noteq> 0 \<and> length es > 0))"

definition first_error :: "'d ResponseContent option \<Rightarrow> string" where
  "first_error responseContent =
     (case responseContent of
        Some c \<Rightarrow> (case errors c of Some (e # es) \<Rightarrow> e | _ \<Rightarrow> ''undefined'')
      | None \<Rightarrow> ''undefined'')"

definition query :: "error + 'd Response \<Rightarrow> error + 'd ResponseContent option" where
  "query fetched =
     and_then fetched (\<lambda>resp.
       if status resp \<ge> 200 \<and> status resp \<le> 299 then
         and_then (json resp) (\<lambda>responseContent.
           if has_errors responseContent
           then Inl (SubgraphQueryError (''Subgraph query failed: '' @ first_error responseContent))
           else Inr responseContent)
       else Inl (SubgraphQueryError (''Subgraph query failed: '' @ statusText resp)))"

subsection \<open>Events\<close>

text \<open>
  A \<^verbatim>\<open>DripsReceiverSeen\<close> event carries a reference to its \<^verbatim>\<open>DripsSet\<close> event, of which the
  sources read the asset ID only; a full \<^verbatim>\<open>DripsSet\<close> event extends that reference. User
  IDs, asset IDs and hashes are strings; amounts and timestamps are bigints.
\<close>

record AssetRef =
  assetId :: string

record DripsReceiverSeenEvent =
  senderUserId :: string
  receiverUserId :: string
  config :: int
  dripsSetEvent :: AssetRef

record DripsSetEvent = AssetRef +
  receiversHash :: string
  dripsHistoryHash :: string
  maxEnd :: int
  blockTimestamp :: int
  dripsReceiverSeenEvents :: "DripsReceiverSeenEvent list"

record DripsReceiverStruct =
  userId :: string
  config :: int

record DripsHistoryStruct =
  dripsHash :: string
  receivers :: "DripsReceiverStruct list"
  updateTime :: int
  maxEnd :: int

definition HashZero :: string where
  "HashZero = ''0x0000000000000000000000000000000000000000000000000000000000000000''"

subsection \<open>Numbers and dates\<close>

text \<open>
  \<^verbatim>\<open>Number(blockTimestamp)\<close> turns a bigint into the nearest double, a tie going to the
  double with an even significand. Below \<open>2^53\<close> in magnitude the bigint is that double. A
  larger magnitude \<open>m\<close> of \<open>bitlen m\<close> binary digits keeps its 53 leading digits \<open>q\<close> and
  is rounded on the \<open>e\<close> digits \<open>r\<close> that follow them. Every such double is an integer,
  and the model gives the integer. A result of \<open>2^1024\<close> or more is \<^verbatim>\<open>Infinity\<close> in
  JavaScript; it is \<open>2^1024\<close> here, which is above every double, and the two uses the
  sources make of the number (the order of the sort and the date) cannot tell the two
  apart.
\<close>

fun bitlen :: "nat \<Rightarrow> nat" where
  "bitlen n = (if n = 0 then 0 else Suc (bitlen (n div 2)))"

declare bitlen.simps [simp del]

definition Number :: "int \<Rightarrow> int" where
  "Number x =
     (let m = nat \<bar>x\<bar> in
      if m < 2 ^ 53 then x
      else
        let e = bitlen m - 53;
            q = m div 2 ^ e;
            r = m mod 2 ^ e;
            q' = (if 2 * r > 2 ^ e \<or> (2 * r = 2 ^ e \<and> odd q) then q + 1 else q);
            v = q' * 2 ^ e
        in sgn x * int (if v \<ge> 2 ^ 1024 then 2 ^ 1024 else v))"

text \<open>
  A \<^verbatim>\<open>Date\<close> is its time value in milliseconds, or \<open>None\<close> when it is an invalid date, whose
  time value is \<^verbatim>\<open>NaN\<close>. \<^verbatim>\<open>new Date(number)\<close> gives an invalid date for a number beyond
  \<open>8.64 * 10^15\<close> in magnitude. The comparison \<^verbatim>\<open>>=\<close> of two dates compares the time values
  and is false when one of them is \<^verbatim>\<open>NaN\<close>.
\<close>

type_synonym Date = "int option"

definition new_Date :: "int \<Rightarrow> Date" where
  "new_Date v = (if \<bar>v\<bar> \<le> 8640000000000000 then Some v else None)"

definition date_ge :: "Date \<Rightarrow> Date \<Rightarrow> bool" where
  "date_ge a b = (case (a, b) of (Some x, Some y) \<Rightarrow> x \<ge> y | _ \<Rightarrow> False)"

subsection \<open>getArgsForSqueezingAllDrips\<close>

text \<open>
  \<^verbatim>\<open>Array.prototype.sort\<close> is stable, and the comparator
  \<^verbatim>\<open>Number(b.blockTimestamp) - Number(a.blockTimestamp)\<close> orders by descending number (the
  difference of two infinities is \<^verbatim>\<open>NaN\<close>, which the sort takes for a tie): the result is
  the stable sort on the negated number.
\<close>

definition sortDesc :: "DripsSetEvent list \<Rightarrow> DripsSetEvent list" where
  "sortDesc dripsSetEvents = sort_key (\<lambda>e. - Number (blockTimestamp e)) dripsSetEvents"

text \<open>
  The selection loop. \<open>currentCycleStartDate\<close> is the time value of the date that
  \<^verbatim>\<open>Utils.Cycle.getInfo\<close> answers (a module that is not among the sources), a valid date; it
  is taken to be the same at every round of the loop.
\<close>

fun squeezableDripsSetEvents :: "int \<Rightarrow> DripsSetEvent list \<Rightarrow> DripsSetEvent list" where
  "squeezableDripsSetEvents currentCycleStartDate [] = []"
| "squeezableDripsSetEvents currentCycleStartDate (dripsConfiguration # rest) =
     (let eventTimestamp = new_Date (Number (blockTimestamp dripsConfiguration)) in
      if date_ge eventTimestamp (Some currentCycleStartDate)
      then dripsConfiguration # squeezableDripsSetEvents currentCycleStartDate rest
      else [dripsConfiguration])"

definition historyHash :: "DripsSetEvent list \<Rightarrow> string" where
  "historyHash squeezable =
     (if length squeezable > 1 then dripsHistoryHash (squeezable ! (length squeezable - 1))
      else HashZero)"

text \<open>
  The loop over the receivers of one event. \<^verbatim>\<open>Utils.Asset.getIdFromAddress\<close> is the
  parameter \<open>getIdFromAddress\<close>; the conjunction of the source evaluates it only for a
  receiver whose ID is \<open>userId\<close>, and an error it raises ends the whole call.
\<close>

fun shouldSqueeze ::
  "(string \<Rightarrow> error + string) \<Rightarrow> string \<Rightarrow> string \<Rightarrow> string
     \<Rightarrow> DripsReceiverSeenEvent list \<Rightarrow> error + bool" where
  "shouldSqueeze getIdFromAddress userId' tokenAddress eventAssetId [] = Inr False"
| "shouldSqueeze getIdFromAddress userId' tokenAddress eventAssetId (receiver # rest) =
     (if receiverUserId receiver = userId' then
        and_then (getIdFromAddress tokenAddress) (\<lambda>tokenAssetId.
          if eventAssetId = tokenAssetId then Inr True
          else shouldSqueeze getIdFromAddress userId' tokenAddress eventAssetId rest)
      else shouldSqueeze getIdFromAddress userId' tokenAddress eventAssetId rest)"

definition historyItem ::
  "(string \<Rightarrow> error + string) \<Rightarrow> string \<Rightarrow> string \<Rightarrow> DripsSetEvent
     \<Rightarrow> error + DripsHistoryStruct" where
  "historyItem getIdFromAddress userId' tokenAddress dripsSetEvent' =
     and_then (shouldSqueeze getIdFromAddress userId' tokenAddress (assetId dripsSetEvent')
                 (dripsReceiverSeenEvents dripsSetEvent')) (\<lambda>squeeze.
       Inr \<lparr>dripsHash = (if squeeze then HashZero else receiversHash dripsSetEvent'),
            receivers = (if squeeze
                         then map (\<lambda>r. \<lparr>userId = receiverUserId r,
                                          config = DripsReceiverSeenEvent.config r\<rparr>)
                                  (dripsReceiverSeenEvents dripsSetEvent')
                         else []),
            updateTime = blockTimestamp dripsSetEvent',
            maxEnd = DripsSetEvent.maxEnd dripsSetEvent'\<rparr>)"

text \<open>\<^verbatim>\<open>Array.prototype.map\<close> with a callback that may throw: the first error ends it.\<close>

fun map_err :: "('a \<Rightarrow> error + 'b) \<Rightarrow> 'a list \<Rightarrow> error + 'b list" where
  "map_err f [] = Inr []"
| "map_err f (x # xs) =
     and_then (f x) (\<lambda>y. and_then (map_err f xs) (\<lambda>ys. Inr (y # ys)))"

text \<open>
  The whole function, from the list of events that \<^verbatim>\<open>getDripsSetEventsByUserId\<close>
  resolved with. The result is the tuple of the five arguments of \<^verbatim>\<open>squeezeDrips\<close>.
\<close>

definition getArgsForSqueezingAllDrips ::
  "(string \<Rightarrow> error + string) \<Rightarrow> int \<Rightarrow> DripsSetEvent list \<Rightarrow> string \<Rightarrow> string \<Rightarrow> string
     \<Rightarrow> error + (string \<times> string \<times> string \<times> string \<times> DripsHistoryStruct list)" where
  "getArgsForSqueezingAllDrips getIdFromAddress currentCycleStartDate dripsSetEvents
       userId' senderId tokenAddress =
     (let squeezable = squeezableDripsSetEvents currentCycleStartDate (sortDesc dripsSetEvents)
      in and_then (map_err (historyItem getIdFromAddress userId' tokenAddress) squeezable)
           (\<lambda>items. Inr (userId', tokenAddress, senderId, historyHash squeezable, rev items)))"

subsection \<open>getSqueezableSenders\<close>

text \<open>
  The function is modelled from the \<^verbatim>\<open>dripsReceiverSeenEvents\<close> member of the answer of the
  subgraph, which may be absent. The two \<^verbatim>\<open>Record\<close> objects of the source are maps from
  sender IDs. An absent key reads as \<^verbatim>\<open>undefined\<close>, which is falsy; the keys are user IDs,
  written as decimal numerals, so none of them is a property that an object inherits.
  \<open>senderStep\<close> is one round of the loop.
\<close>

definition senderStep ::
  "(string \<rightharpoonup> string list) \<times> (string \<rightharpoonup> bool) \<Rightarrow> DripsReceiverSeenEvent
     \<Rightarrow> (string \<rightharpoonup> string list) \<times> (string \<rightharpoonup> bool)" where
  "senderStep state dripsReceiverSeenEvent =
     (let squeezableSenders = fst state;
          processedSenders = snd state;
          sender = senderUserId dripsReceiverSeenEvent
      in if processedSenders sender \<noteq> Some True then
           let processedSenders' = processedSenders(sender \<mapsto> True);
               squeezableSenders' =
                 (if squeezableSenders sender = None then squeezableSenders(sender \<mapsto> [])
                  else squeezableSenders)
           in (case squeezableSenders' sender of
                 None \<Rightarrow> (squeezableSenders', processedSenders')
               | Some assets \<Rightarrow>
                   (squeezableSenders'(sender \<mapsto>
                      assets @ [assetId (dripsSetEvent dripsReceiverSeenEvent)]),
                    processedSenders'))
         else state)"

definition getSqueezableSenders ::
  "DripsReceiverSeenEvent list option \<Rightarrow> (string \<rightharpoonup> string list)" where
  "getSqueezableSenders dripsReceiverSeenEvents' =
     (case dripsReceiverSeenEvents' of
        None \<Rightarrow> Map.empty
      | Some [] \<Rightarrow> Map.empty
      | Some events \<Rightarrow> fst (foldl senderStep (Map.empty, Map.empty) events))"

text \<open>
  The invariant of the loop: the two records agree on the senders they hold, a sender
  being marked as processed exactly when it has an entry.
\<close>

definition agree :: "(string \<rightharpoonup> string list) \<times> (string \<rightharpoonup> bool) \<Rightarrow> bool" where
  "agree state \<longleftrightarrow> (\<forall>k. (snd state k = Some True) = (fst state k \<noteq> None))"

section \<open>Example data\<close>

text \<open>
  Four \<^verbatim>\<open>DripsSet\<close> events of sender 3 and a cycle that starts at 90: two events of the
  cycle and two older ones. Receiver 7 is dripped the asset 171 by the event at 100 and
  another asset by the event at 200.
\<close>

definition example_token :: string where
  "example_token = ''0x00000000000000000000000000000000000000AB''"

definition event_100 :: DripsSetEvent where
  "event_100 =
     \<lparr>assetId = ''171'', receiversHash = ''0xa1'', dripsHistoryHash = ''0xb1'',
      DripsSetEvent.maxEnd = 0, blockTimestamp = 100,
      dripsReceiverSeenEvents =
        [\<lparr>senderUserId = ''3'', receiverUserId = ''7'', DripsReceiverSeenEvent.config = 5,
          dripsSetEvent = \<lparr>assetId = ''171''\<rparr>\<rparr>]\<rparr>"

definition event_50 :: DripsSetEvent where
  "event_50 =
     \<lparr>assetId = ''171'', receiversHash = ''0xa2'', dripsHistoryHash = ''0xb2'',
      DripsSetEvent.maxEnd = 0, blockTimestamp = 50,
      dripsReceiverSeenEvents =
        [\<lparr>senderUserId = ''3'', receiverUserId = ''8'', DripsReceiverSeenEvent.config = 6,
          dripsSetEvent = \<lparr>assetId = ''171''\<rparr>\<rparr>]\<rparr>"

definition event_200 :: DripsSetEvent where
  "event_200 =
     \<lparr>assetId = ''999'', receiversHash = ''0xa3'', dripsHistoryHash = ''0xb3'',
      DripsSetEvent.maxEnd = 0, blockTimestamp = 200,
      dripsReceiverSeenEvents =
        [\<lparr>senderUserId = ''3'', receiverUserId = ''7'', DripsReceiverSeenEvent.config = 7,
          dripsSetEvent = \<lparr>assetId = ''999''\<rparr>\<rparr>]\<rparr>"

definition event_40 :: DripsSetEvent where
  "event_40 =
     \<lparr>assetId = ''171'', receiversHash = ''0xa4'', dripsHistoryHash = ''0xb4'',
      DripsSetEvent.maxEnd = 0, blockTimestamp = 40,
      dripsReceiverSeenEvents = []\<rparr>"


definition example_events :: "DripsSetEvent list" where
  "example_events = [event_100, event_50, event_200, event_40]"

definition item_50 :: DripsHistoryStruct where
  "item_50 =
     \<lparr>dripsHash = ''0xa2'', receivers = [], updateTime = 50, DripsHistoryStruct.maxEnd = 0\<rparr>"

definition item_100 :: DripsHistoryStruct where
  "item_100 =
     \<lparr>dripsHash = HashZero,
      receivers = [\<lparr>userId = ''7'', DripsReceiverStruct.config = 5\<rparr>],
      updateTime = 100, DripsHistoryStruct.maxEnd = 0\<rparr>"

definition item_200 :: DripsHistoryStruct where
  "item_200 =
     \<lparr>dripsHash = ''0xa3'', receivers = [], updateTime = 200, DripsHistoryStruct.maxEnd = 0\<rparr>"


definition example_history :: "DripsHistoryStruct list" where
  "example_history = [item_50, item_100, item_200]"

chapter \<open>Properties\<close>

section \<open>Arithmetic of the packing\<close>

lemma or_low_bits:
  fixes a s :: int
  assumes "0 \<le> s" and "s < 2 ^ n"
  shows "push_bit n a OR s = a * 2 ^ n + s"
proof -
  have s: "take_bit n s = s"
    using assms by (simp add: take_bit_int_eq_self)
  have "push_bit n a AND take_bit n s = 0"
    by (simp add: bit_eq_iff bit_simps)
  then have "push_bit n a + take_bit n s = push_bit n a OR take_bit n s"
    by (rule disjunctive_add_eq_or)
  then show ?thesis
    by (simp add: s push_bit_eq_mult)
qed

lemma and_low_mask:
  fixes k :: int
  shows "k AND (2 ^ n - 1) = k mod 2 ^ n"
  using take_bit_eq_mask [of n k] by (simp add: mask_eq_exp_minus_1 take_bit_eq_mod)

lemma shl_nonneg: "0 \<le> x \<Longrightarrow> shl x n = Inr (x * 2 ^ n)"
  by (simp add: shl_def push_bit_eq_mult)

lemma shr_nonneg: "0 \<le> x \<Longrightarrow> shr x n = Inr (x div 2 ^ n)"
  by (simp add: shr_def drop_bit_eq_div)

lemma bn_or_low:
  assumes "0 \<le> x" "0 \<le> s" "s < 2 ^ n"
  shows "bn_or (x * 2 ^ n) s = Inr (x * 2 ^ n + s)"
proof -
  have "push_bit n x OR s = x * 2 ^ n + s"
    using assms by (simp add: or_low_bits)
  then have "x * 2 ^ n OR s = x * 2 ^ n + s"
    by (simp add: push_bit_eq_mult)
  moreover have "\<not> (x * 2 ^ n < 0 \<or> s < 0)"
    using assms by (simp add: not_less)
  ultimately show ?thesis
    unfolding bn_or_def by (simp only: if_False)
qed

lemma bn_and_mask:
  assumes "0 \<le> x"
  shows "bn_and x (2 ^ n - 1) = Inr (x mod 2 ^ n)"
proof -
  have "\<not> (x < 0 \<or> (2::int) ^ n - 1 < 0)"
    using assms by (simp add: not_less)
  then show ?thesis
    unfolding bn_and_def by (simp only: if_False and_low_mask)
qed

lemma packed_value:
  fixes a s d :: int
  assumes "0 \<le> a" "0 \<le> s" "s < 2 ^ 32" "0 \<le> d" "d < 2 ^ 32"
  shows "toUint256 \<lparr>start = s, duration = d, amountPerSec = a, \<dots> = m\<rparr>
           = Inr (a * 2 ^ 64 + s * 2 ^ 32 + d)"
proof -
  have 1: "shl a 32 = Inr (a * 2 ^ 32)"
    using assms by (simp only: shl_nonneg)
  have 2: "bn_or (a * 2 ^ 32) s = Inr (a * 2 ^ 32 + s)"
    using assms by (simp only: bn_or_low)
  have nn: "0 \<le> a * 2 ^ 32 + s"
    using assms by simp
  have 3: "shl (a * 2 ^ 32 + s) 32 = Inr ((a * 2 ^ 32 + s) * 2 ^ 32)"
    using nn by (simp only: shl_nonneg)
  have 4: "bn_or ((a * 2 ^ 32 + s) * 2 ^ 32) d = Inr ((a * 2 ^ 32 + s) * 2 ^ 32 + d)"
    using nn assms by (simp only: bn_or_low)
  have 5: "(a * 2 ^ 32 + s) * 2 ^ 32 + d = a * 2 ^ 64 + s * 2 ^ 32 + d"
    by (simp add: algebra_simps)
  have "toUint256 \<lparr>start = s, duration = d, amountPerSec = a, \<dots> = m\<rparr>
          = Inr ((a * 2 ^ 32 + s) * 2 ^ 32 + d)"
    unfolding toUint256_def and_then_def
    by (simp only: DripsFields.simps 1 2 3 4 sum.case)
  then show ?thesis
    by (simp only: 5)
qed

lemma unpack_amount:
  fixes a s d :: int
  assumes "0 \<le> s" "s < 2 ^ 32" "0 \<le> d" "d < 2 ^ 32"
  shows "(a * 2 ^ 64 + s * 2 ^ 32 + d) div 2 ^ 64 = a"
proof -
  have low: "0 \<le> s * 2 ^ 32 + d" "s * 2 ^ 32 + d < 2 ^ 64"
    using assms by auto
  have "(s * 2 ^ 32 + d + a * 2 ^ 64) div 2 ^ 64 = a + (s * 2 ^ 32 + d) div 2 ^ 64"
    by (rule div_mult_self1) simp
  moreover have "(s * 2 ^ 32 + d) div 2 ^ 64 = 0"
    using low by (simp only: div_pos_pos_trivial)
  ultimately show ?thesis
    by (simp add: add.commute add.left_commute)
qed

lemma unpack_duration:
  fixes a s d :: int
  assumes "0 \<le> d" "d < 2 ^ 32"
  shows "(a * 2 ^ 64 + s * 2 ^ 32 + d) mod 2 ^ 32 = d"
proof -
  have "a * 2 ^ 64 + s * 2 ^ 32 + d = d + (a * 2 ^ 32 + s) * 2 ^ 32"
    by (simp add: algebra_simps)
  then have "(a * 2 ^ 64 + s * 2 ^ 32 + d) mod 2 ^ 32 = d mod 2 ^ 32"
    by (simp only: mod_mult_self1)
  then show ?thesis
    using assms by (simp only: mod_pos_pos_trivial)
qed

lemma unpack_start:
  fixes a s d :: int
  assumes "0 \<le> s" "s < 2 ^ 32" "0 \<le> d" "d < 2 ^ 32"
  shows "(a * 2 ^ 64 + s * 2 ^ 32 + d) div 2 ^ 32 mod 2 ^ 32 = s"
proof -
  have "a * 2 ^ 64 + s * 2 ^ 32 + d = d + (a * 2 ^ 32 + s) * 2 ^ 32"
    by (simp add: algebra_simps)
  then have "(a * 2 ^ 64 + s * 2 ^ 32 + d) div 2 ^ 32 = d div 2 ^ 32 + (a * 2 ^ 32 + s)"
    by (simp only: div_mult_self1) simp
  moreover have "d div 2 ^ 32 = 0"
    using assms by (simp only: div_pos_pos_trivial)
  ultimately have "(a * 2 ^ 64 + s * 2 ^ 32 + d) div 2 ^ 32 = s + a * 2 ^ 32"
    by simp
  then have "(a * 2 ^ 64 + s * 2 ^ 32 + d) div 2 ^ 32 mod 2 ^ 32 = s mod 2 ^ 32"
    by (simp only: mod_mult_self1)
  then show ?thesis
    using assms by (simp only: mod_pos_pos_trivial)
qed

section \<open>The constructor and the codec\<close>

lemma toUint256_Inr_iff:
  "(\<exists>u. toUint256 c = Inr u) \<longleftrightarrow> 0 \<le> amountPerSec c \<and> 0 \<le> start c \<and> 0 \<le> duration c"
  by (auto simp: toUint256_def and_then_def shl_def bn_or_def split: sum.splits if_splits)

lemma toUint256_fault:
  "toUint256 c = Inl e \<Longrightarrow> \<exists>m. e = NUMERIC_FAULT m"
  by (auto simp: toUint256_def and_then_def shl_def bn_or_def split: sum.splits if_splits)

text \<open>The constructor, once the three arguments have been read.\<close>

lemma new_read:
  assumes "BigNumber_from a = Inr av"
    and "BigNumber_from (or_default d) = Inr dv"
    and "BigNumber_from (or_default s) = Inr sv"
  shows "new_DripsReceiverConfig a d s =
           (if av = 0 then Inl InvalidArgument
            else and_then (toUint256 \<lparr>start = sv, duration = dv, amountPerSec = av\<rparr>) (\<lambda>u.
                   Inr \<lparr>start = sv, duration = dv, amountPerSec = av, asUint256 = u\<rparr>))"
  using assms
  by (simp add: new_DripsReceiverConfig_def and_then_def Let_def split: sum.splits)

lemma new_instance:
  assumes "new_DripsReceiverConfig a d s = Inr c"
  shows "BigNumber_from a = Inr (amountPerSec c) \<and> amountPerSec c \<noteq> 0
       \<and> BigNumber_from (or_default d) = Inr (duration c)
       \<and> BigNumber_from (or_default s) = Inr (start c)
       \<and> toUint256 c = Inr (asUint256 c)"
proof -
  from assms obtain av where av: "BigNumber_from a = Inr av"
    by (cases "BigNumber_from a") (simp_all add: new_DripsReceiverConfig_def and_then_def)
  with assms have nz: "av \<noteq> 0"
    by (auto simp: new_DripsReceiverConfig_def and_then_def)
  from assms av nz obtain sv where sv: "BigNumber_from (or_default s) = Inr sv"
    by (cases "BigNumber_from (or_default s)")
       (simp_all add: new_DripsReceiverConfig_def and_then_def)
  from assms av nz sv obtain dv where dv: "BigNumber_from (or_default d) = Inr dv"
    by (cases "BigNumber_from (or_default d)")
       (simp_all add: new_DripsReceiverConfig_def and_then_def)
  let ?t = "\<lparr>start = sv, duration = dv, amountPerSec = av\<rparr>"
  from assms nz have r: "and_then (toUint256 ?t) (\<lambda>u.
      Inr \<lparr>start = sv, duration = dv, amountPerSec = av, asUint256 = u\<rparr>) = Inr c"
    by (simp add: new_read [OF av dv sv])
  then obtain u where u: "toUint256 ?t = Inr u"
    by (cases "toUint256 ?t") (simp_all add: and_then_def)
  with r have c: "c = \<lparr>start = sv, duration = dv, amountPerSec = av, asUint256 = u\<rparr>"
    by (simp add: and_then_def)
  have "toUint256 c = toUint256 ?t"
    by (simp add: c toUint256_def)
  with av nz sv dv u show ?thesis
    by (simp add: c)
qed

lemma instance_nonneg:
  assumes "new_DripsReceiverConfig a d s = Inr c"
  shows "0 < amountPerSec c \<and> 0 \<le> start c \<and> 0 \<le> duration c"
proof -
  from new_instance [OF assms] have "amountPerSec c \<noteq> 0" "toUint256 c = Inr (asUint256 c)"
    by simp_all
  then show ?thesis using toUint256_Inr_iff [of c] by auto
qed

lemma new_ok:
  assumes "BigNumber_from a = Inr av"
    and "BigNumber_from (or_default d) = Inr dv"
    and "BigNumber_from (or_default s) = Inr sv"
    and "0 < av" "0 \<le> dv" "0 \<le> sv"
  shows "\<exists>u. new_DripsReceiverConfig a d s =
     Inr \<lparr>start = sv, duration = dv, amountPerSec = av, asUint256 = u\<rparr>"
proof -
  let ?t = "\<lparr>start = sv, duration = dv, amountPerSec = av\<rparr>"
  have "\<exists>u. toUint256 ?t = Inr u"
    using assms by (simp add: toUint256_Inr_iff)
  then obtain u where "toUint256 ?t = Inr u" ..
  then show ?thesis using assms(4)
    by (simp add: new_read [OF assms(1-3)] and_then_def)
qed

lemma fromUint256_packed:
  fixes a s d :: int
  assumes "0 < a" "0 \<le> s" "s < 2 ^ 32" "0 \<le> d" "d < 2 ^ 32"
  shows "fromUint256 (BN (a * 2 ^ 64 + s * 2 ^ 32 + d))
           = new_DripsReceiverConfig (BN a) (Some (BN d)) (Some (BN s))"
proof -
  let ?u = "a * 2 ^ 64 + s * 2 ^ 32 + d"
  have nn: "0 \<le> ?u"
    using assms by simp
  have 0: "BigNumber_from (BN ?u) = Inr ?u"
    by (simp add: BigNumber_from_def)
  have 1: "shr ?u 64 = Inr a"
    using nn assms by (simp only: shr_nonneg unpack_amount)
  have 2: "bn_and ?u (2 ^ 32 - 1) = Inr d"
    using nn assms by (simp only: bn_and_mask unpack_duration)
  have 3: "shr ?u 32 = Inr (?u div 2 ^ 32)"
    using nn by (simp only: shr_nonneg)
  have "0 \<le> ?u div 2 ^ 32"
    using nn by (simp add: pos_imp_zdiv_nonneg_iff)
  then have 4: "bn_and (?u div 2 ^ 32) (2 ^ 32 - 1) = Inr s"
    using assms by (simp only: bn_and_mask unpack_start)
  show ?thesis
    unfolding fromUint256_def and_then_def by (simp only: 0 1 2 3 4 sum.case)
qed

text \<open>
  Claim C1. Every \<^verbatim>\<open>DripsReceiverConfig\<close> (an object the constructor has returned) whose
  amount per second is not zero and whose start and duration are below \<open>2^32\<close> survives
  the codec: encoding it with \<^verbatim>\<open>toUint256\<close> and decoding the result with
  \<^verbatim>\<open>fromUint256\<close> succeeds and gives a configuration with the same amount per second,
  start and duration.
\<close>

theorem C1_codec_roundtrip:
  assumes "new_DripsReceiverConfig a d s = Inr cfg"
    and "amountPerSec cfg \<noteq> 0"
    and "start cfg < 2 ^ 32"
    and "duration cfg < 2 ^ 32"
  shows "\<exists>cfg'. and_then (toUint256 cfg) (\<lambda>u. fromUint256 (BN u)) = Inr cfg'
           \<and> amountPerSec cfg' = amountPerSec cfg
           \<and> start cfg' = start cfg
           \<and> duration cfg' = duration cfg"
proof -
  obtain s0 d0 a0 u0 where c: "cfg = \<lparr>start = s0, duration = d0, amountPerSec = a0, asUint256 = u0\<rparr>"
    by (cases cfg) simp
  have nn: "0 < a0" "0 \<le> s0" "0 \<le> d0"
    using instance_nonneg [OF assms(1)] by (simp_all add: c)
  have lt: "s0 < 2 ^ 32" "d0 < 2 ^ 32"
    using assms(3,4) by (simp_all add: c)
  have "toUint256 cfg = Inr (a0 * 2 ^ 64 + s0 * 2 ^ 32 + d0)"
    unfolding c using nn lt by (simp only: packed_value less_imp_le)
  then have "and_then (toUint256 cfg) (\<lambda>u. fromUint256 (BN u))
      = new_DripsReceiverConfig (BN a0) (Some (BN d0)) (Some (BN s0))"
    unfolding and_then_def using nn lt by (simp only: sum.case fromUint256_packed)
  moreover obtain u where "new_DripsReceiverConfig (BN a0) (Some (BN d0)) (Some (BN s0))
      = Inr \<lparr>start = s0, duration = d0, amountPerSec = a0, asUint256 = u\<rparr>"
    using new_ok [of "BN a0" a0 "Some (BN d0)" d0 "Some (BN s0)" s0] nn
    by (auto simp: BigNumber_from_def or_default_def)
  ultimately show ?thesis
    by (simp add: c)
qed

lemma new_5_7_9:
  "new_DripsReceiverConfig (BN 5) (Some (BN 7)) (Some (BN 9))
     = Inr \<lparr>start = 9, duration = 7, amountPerSec = 5, asUint256 = 92233720407202463751\<rparr>"
  by (simp add: new_DripsReceiverConfig_def BigNumber_from_def or_default_def toUint256_def
      and_then_def shl_def bn_or_def)

text \<open>The round trip at amount 5, duration 7 and start 9.\<close>

theorem C1_codec_roundtrip_witness:
  "new_DripsReceiverConfig (BN 5) (Some (BN 7)) (Some (BN 9))
     = Inr \<lparr>start = 9, duration = 7, amountPerSec = 5, asUint256 = 92233720407202463751\<rparr>
   \<and> (5::int) \<noteq> 0 \<and> (9::int) < 2 ^ 32 \<and> (7::int) < 2 ^ 32
   \<and> (\<exists>cfg'. and_then (toUint256 \<lparr>start = 9, duration = 7, amountPerSec = 5,
                                        asUint256 = 92233720407202463751\<rparr>)
                 (\<lambda>u. fromUint256 (BN u)) = Inr cfg'
          \<and> amountPerSec cfg' = 5 \<and> start cfg' = 9 \<and> duration cfg' = 7)"
  using C1_codec_roundtrip [OF new_5_7_9] new_5_7_9 by simp

text \<open>
  Claim C2. For every \<^verbatim>\<open>DripsReceiverConfig\<close> whose start and duration are below \<open>2^32\<close>
  and whose amount per second is below \<open>2^192\<close>, \<^verbatim>\<open>toUint256\<close> returns
  \<open>amountPerSec * 2^64 + start * 2^32 + duration\<close>: the duration in bits 0 to 31, the start
  in bits 32 to 63, the amount per second from bit 64 upwards; the value is below \<open>2^256\<close>.
\<close>

theorem C2_packed_layout:
  assumes "new_DripsReceiverConfig a d s = Inr cfg"
    and "start cfg < 2 ^ 32"
    and "duration cfg < 2 ^ 32"
    and "amountPerSec cfg < 2 ^ 192"
  shows "\<exists>u. toUint256 cfg = Inr u
           \<and> u = amountPerSec cfg * 2 ^ 64 + start cfg * 2 ^ 32 + duration cfg
           \<and> take_bit 32 u = duration cfg
           \<and> take_bit 32 (drop_bit 32 u) = start cfg
           \<and> drop_bit 64 u = amountPerSec cfg
           \<and> 0 \<le> u \<and> u < 2 ^ 256"
proof -
  obtain s0 d0 a0 u0 where c: "cfg = \<lparr>start = s0, duration = d0, amountPerSec = a0, asUint256 = u0\<rparr>"
    by (cases cfg) simp
  have nn: "0 < a0" "0 \<le> s0" "0 \<le> d0"
    using instance_nonneg [OF assms(1)] by (simp_all add: c)
  have lt: "s0 < 2 ^ 32" "d0 < 2 ^ 32" "a0 < 2 ^ 192"
    using assms(2,3,4) by (simp_all add: c)
  let ?u = "a0 * 2 ^ 64 + s0 * 2 ^ 32 + d0"
  have u: "toUint256 cfg = Inr ?u"
    unfolding c using nn lt by (simp only: packed_value less_imp_le)
  have b0: "take_bit 32 ?u = d0"
    using nn lt by (simp only: take_bit_eq_mod unpack_duration)
  have b1: "take_bit 32 (drop_bit 32 ?u) = s0"
    using nn lt by (simp only: take_bit_eq_mod drop_bit_eq_div unpack_start)
  have b2: "drop_bit 64 ?u = a0"
    using nn lt by (simp only: drop_bit_eq_div unpack_amount)
  have lo: "0 \<le> ?u"
    using nn by simp
  have "a0 + 1 \<le> 2 ^ 192"
    using lt by simp
  then have "(a0 + 1) * 2 ^ 64 \<le> 2 ^ 192 * (2 ^ 64 :: int)"
    by (rule mult_right_mono) simp
  moreover have "s0 * 2 ^ 32 + d0 < 2 ^ 64"
    using nn lt by simp
  ultimately have hi: "?u < 2 ^ 256"
    by (simp add: algebra_simps)
  show ?thesis
    using u b0 b1 b2 lo hi by (simp add: c)
qed

text \<open>The layout at amount 5, duration 7 and start 9.\<close>

theorem C2_packed_layout_witness:
  "new_DripsReceiverConfig (BN 5) (Some (BN 7)) (Some (BN 9))
     = Inr \<lparr>start = 9, duration = 7, amountPerSec = 5, asUint256 = 92233720407202463751\<rparr>
   \<and> (9::int) < 2 ^ 32 \<and> (7::int) < 2 ^ 32 \<and> (5::int) < 2 ^ 192
   \<and> toUint256 \<lparr>start = 9, duration = 7, amountPerSec = 5, asUint256 = 92233720407202463751\<rparr>
       = Inr (5 * 2 ^ 64 + 9 * 2 ^ 32 + 7)"
  using C2_packed_layout [OF new_5_7_9] new_5_7_9 by simp

text \<open>
  Claim C3, amended. For an amount per second other than a hexadecimal literal written
  with the prefix \<^verbatim>\<open>0X\<close>, the constructor throws \<^verbatim>\<open>DripsErrors.invalidArgument\<close> exactly
  when \<^verbatim>\<open>BigNumber.from\<close> reads the amount as 0. When \<^verbatim>\<open>BigNumber.from\<close> reads the
  amount per second as a positive integer and the duration and the start (an omitted one
  being the number 0) as integers that are not negative, the constructor returns an
  object whose three fields are these integers and whose \<^verbatim>\<open>asUint256\<close> is \<^verbatim>\<open>toUint256\<close> of
  the object. When the three arguments are read and the amount is negative, or the amount
  is not zero and the duration or the start is negative, the \<^verbatim>\<open>BigNumber\<close> operations of
  \<^verbatim>\<open>toUint256\<close> fault and the constructor throws that fault. When \<^verbatim>\<open>BigNumber.from\<close>
  refuses the amount per second, the constructor throws the error of the library.
\<close>

theorem C3_constructor:
  "(BigNumber_from a \<noteq> Inl GarbledLiteral
        \<longrightarrow> (new_DripsReceiverConfig a d s = Inl InvalidArgument \<longleftrightarrow> BigNumber_from a = Inr 0))
   \<and> (BigNumber_from a = Inr av \<and> BigNumber_from (or_default d) = Inr dv
        \<and> BigNumber_from (or_default s) = Inr sv \<and> 0 < av \<and> 0 \<le> dv \<and> 0 \<le> sv
        \<longrightarrow> (\<exists>c. new_DripsReceiverConfig a d s = Inr c
                 \<and> amountPerSec c = av \<and> duration c = dv \<and> start c = sv
                 \<and> toUint256 c = Inr (asUint256 c)))
   \<and> (BigNumber_from a = Inr av \<and> BigNumber_from (or_default d) = Inr dv
        \<and> BigNumber_from (or_default s) = Inr sv
        \<and> (av < 0 \<or> (av \<noteq> 0 \<and> (dv < 0 \<or> sv < 0)))
        \<longrightarrow> (\<exists>m. new_DripsReceiverConfig a d s = Inl (NUMERIC_FAULT m)))
   \<and> (BigNumber_from a = Inl e \<and> e \<noteq> GarbledLiteral
        \<longrightarrow> new_DripsReceiverConfig a d s = Inl e)"
proof (intro conjI impI)
  show "new_DripsReceiverConfig a d s = Inl InvalidArgument \<longleftrightarrow> BigNumber_from a = Inr 0"
    if "BigNumber_from a \<noteq> Inl GarbledLiteral"
  proof
    assume l: "new_DripsReceiverConfig a d s = Inl InvalidArgument"
    show "BigNumber_from a = Inr 0"
    proof (rule ccontr)
      assume n: "BigNumber_from a \<noteq> Inr 0"
      have lib: "\<And>x. BigNumber_from x \<noteq> Inl InvalidArgument"
        by (auto simp: BigNumber_from_def from_string_def from_number_def unsigned_literal_def
            and_then_def split: BigNumberish.splits number.splits option.splits if_splits
            sum.splits)
      from l lib [of a] obtain av where av: "BigNumber_from a = Inr av"
        by (cases "BigNumber_from a") (simp_all add: new_DripsReceiverConfig_def and_then_def)
      with n have nz: "av \<noteq> 0"
        by simp
      from l av nz lib [of "or_default s"] obtain sv where
        sv: "BigNumber_from (or_default s) = Inr sv"
        by (cases "BigNumber_from (or_default s)")
           (simp_all add: new_DripsReceiverConfig_def and_then_def)
      from l av nz sv lib [of "or_default d"] obtain dv where
        dv: "BigNumber_from (or_default d) = Inr dv"
        by (cases "BigNumber_from (or_default d)")
           (simp_all add: new_DripsReceiverConfig_def and_then_def)
      from l nz have "toUint256 \<lparr>start = sv, duration = dv, amountPerSec = av\<rparr>
          = Inl InvalidArgument"
        by (cases "toUint256 \<lparr>start = sv, duration = dv, amountPerSec = av\<rparr>")
           (simp_all add: new_read [OF av dv sv] and_then_def)
      then show False
        using toUint256_fault by blast
    qed
  next
    assume "BigNumber_from a = Inr 0"
    then show "new_DripsReceiverConfig a d s = Inl InvalidArgument"
      by (simp add: new_DripsReceiverConfig_def and_then_def)
  qed
next
  assume ok: "BigNumber_from a = Inr av \<and> BigNumber_from (or_default d) = Inr dv
        \<and> BigNumber_from (or_default s) = Inr sv \<and> 0 < av \<and> 0 \<le> dv \<and> 0 \<le> sv"
  then obtain u where n: "new_DripsReceiverConfig a d s =
      Inr \<lparr>start = sv, duration = dv, amountPerSec = av, asUint256 = u\<rparr>"
    using new_ok [of a av d dv s sv] by blast
  show "\<exists>c. new_DripsReceiverConfig a d s = Inr c
                 \<and> amountPerSec c = av \<and> duration c = dv \<and> start c = sv
                 \<and> toUint256 c = Inr (asUint256 c)"
    using new_instance [OF n] n by simp
next
  assume neg: "BigNumber_from a = Inr av \<and> BigNumber_from (or_default d) = Inr dv
        \<and> BigNumber_from (or_default s) = Inr sv
        \<and> (av < 0 \<or> (av \<noteq> 0 \<and> (dv < 0 \<or> sv < 0)))"
  let ?t = "\<lparr>start = sv, duration = dv, amountPerSec = av\<rparr>"
  have "\<not> (\<exists>u. toUint256 ?t = Inr u)"
    using neg by (auto simp: toUint256_Inr_iff)
  then obtain e where e: "toUint256 ?t = Inl e"
    by (cases "toUint256 ?t") auto
  then obtain m where "e = NUMERIC_FAULT m"
    using toUint256_fault by blast
  moreover from neg have "av \<noteq> 0"
    by auto
  ultimately show "\<exists>m. new_DripsReceiverConfig a d s = Inl (NUMERIC_FAULT m)"
    using neg e new_read [of a av d dv s sv] by (simp add: and_then_def)
next
  assume "BigNumber_from a = Inl e \<and> e \<noteq> GarbledLiteral"
  then show "new_DripsReceiverConfig a d s = Inl e"
    by (simp add: new_DripsReceiverConfig_def and_then_def)
qed

lemma read_small_number:
  "BigNumber_from (Num (Integral 0)) = Inr 0"
  "BigNumber_from (Num (Integral 5)) = Inr 5"
  "BigNumber_from (Num (Integral 7)) = Inr 7"
  "BigNumber_from (Str ''0x00'') = Inr 0"
  by (simp_all add: BigNumber_from_def from_number_def MAX_SAFE_def from_string_def
      unsign_def unsigned_literal_def numeral_value_def digit_value_def and_then_def
      toString_def render_def digits.simps digit_char_def)

text \<open>
  The constructor at amount 0 given as a number and as a hexadecimal string, and at amount
  5 with duration 7 and the start omitted.
\<close>

theorem C3_constructor_witness:
  "new_DripsReceiverConfig (Num (Integral 0)) (Some (Num (Integral 7))) None = Inl InvalidArgument
   \<and> new_DripsReceiverConfig (Str ''0x00'') None None = Inl InvalidArgument
   \<and> (0::int) < 5
   \<and> (\<exists>c. new_DripsReceiverConfig (Num (Integral 5)) (Some (Num (Integral 7))) None = Inr c
          \<and> amountPerSec c = 5 \<and> duration c = 7 \<and> start c = 0
          \<and> toUint256 c = Inr (asUint256 c))"
proof -
  have 1: "new_DripsReceiverConfig (Num (Integral 0)) (Some (Num (Integral 7))) None
      = Inl InvalidArgument"
    using C3_constructor [of "Num (Integral 0)" "Some (Num (Integral 7))" None]
    by (simp add: read_small_number)
  have 2: "new_DripsReceiverConfig (Str ''0x00'') None None = Inl InvalidArgument"
    using C3_constructor [of "Str ''0x00''" None None] by (simp add: read_small_number)
  have 3: "\<exists>c. new_DripsReceiverConfig (Num (Integral 5)) (Some (Num (Integral 7))) None = Inr c
          \<and> amountPerSec c = 5 \<and> duration c = 7 \<and> start c = 0
          \<and> toUint256 c = Inr (asUint256 c)"
    by (rule C3_constructor [of "Num (Integral 5)" "Some (Num (Integral 7))" None 5 7 0,
          THEN conjunct2, THEN conjunct1, THEN mp])
       (simp add: read_small_number or_default_def)
  from 1 2 3 show ?thesis
    by simp
qed

text \<open>
  Claim C3 as stated fails at the amount \<open>-1\<close> and at the amount \<open>2^53\<close> given as a
  number: neither is zero, and the constructor returns no object.
\<close>

theorem C3_no_instance_counterexample:
  "new_DripsReceiverConfig (Num (Integral (- 1))) None None = Inl (NUMERIC_FAULT ''negative-width'')
   \<and> new_DripsReceiverConfig (Num (Integral (2 ^ 53))) None None = Inl (NUMERIC_FAULT ''overflow'')"
  by (simp add: new_DripsReceiverConfig_def BigNumber_from_def from_number_def MAX_SAFE_def
      from_string_def unsign_def unsigned_literal_def numeral_value_def digit_value_def
      and_then_def toString_def render_def digits.simps digit_char_def or_default_def
      toUint256_def shl_def)

section \<open>Splitting a configuration ID\<close>

lemma split_on_unfold:
  "split_on sep s =
     takeWhile (\<lambda>c. c \<noteq> sep) s #
       (case dropWhile (\<lambda>c. c \<noteq> sep) s of [] \<Rightarrow> [] | x # rest \<Rightarrow> split_on sep rest)"
  by (induction s) (auto split: list.splits)

lemma split_on_first:
  "at_index (split_on sep s) 0 = Some (takeWhile (\<lambda>c. c \<noteq> sep) s)"
  by (subst split_on_unfold) (simp add: at_index_def)

lemma split_on_second:
  assumes "sep \<in> set s"
  shows "at_index (split_on sep s) 1
           = Some (takeWhile (\<lambda>c. c \<noteq> sep) (tl (dropWhile (\<lambda>c. c \<noteq> sep) s)))"
proof -
  from assms obtain x rest where d: "dropWhile (\<lambda>c. c \<noteq> sep) s = x # rest"
    by (cases "dropWhile (\<lambda>c. c \<noteq> sep) s") auto
  have "split_on sep s = takeWhile (\<lambda>c. c \<noteq> sep) s # split_on sep rest"
    by (subst split_on_unfold) (simp add: d)
  moreover have "at_index (split_on sep rest) 0 = Some (takeWhile (\<lambda>c. c \<noteq> sep) rest)"
    by (rule split_on_first)
  ultimately show ?thesis
    by (simp add: at_index_def d split: if_splits)
qed

text \<open>
  Claim C4. \<^verbatim>\<open>destructUserAssetConfigId\<close> throws \<^verbatim>\<open>DripsErrors.invalidArgument\<close> exactly when
  the configuration ID is empty or has no hyphen. For an ID with a hyphen it returns, as
  the user ID, the text before the first hyphen and, as the asset ID, the text between
  the first hyphen and the second (or the end of the ID when there is no second one).
\<close>

theorem C4_destructUserAssetConfigId:
  "(destructUserAssetConfigId configId = Inl InvalidArgument
      \<longleftrightarrow> configId = [] \<or> CHR ''-'' \<notin> set configId)
   \<and> (CHR ''-'' \<in> set configId \<longrightarrow>
        destructUserAssetConfigId configId =
          Inr \<lparr>UserAssetConfigIdParts.userId = Some (takeWhile (\<lambda>c. c \<noteq> CHR ''-'') configId),
               UserAssetConfigIdParts.assetId = Some (takeWhile (\<lambda>c. c \<noteq> CHR ''-'')
                                 (tl (dropWhile (\<lambda>c. c \<noteq> CHR ''-'') configId)))\<rparr>)"
proof (intro conjI impI)
  show "destructUserAssetConfigId configId = Inl InvalidArgument
      \<longleftrightarrow> configId = [] \<or> CHR ''-'' \<notin> set configId"
    by (simp add: destructUserAssetConfigId_def)
next
  assume h: "CHR ''-'' \<in> set configId"
  then have "configId \<noteq> []"
    by auto
  with h show "destructUserAssetConfigId configId =
          Inr \<lparr>UserAssetConfigIdParts.userId = Some (takeWhile (\<lambda>c. c \<noteq> CHR ''-'') configId),
               UserAssetConfigIdParts.assetId = Some (takeWhile (\<lambda>c. c \<noteq> CHR ''-'')
                                 (tl (dropWhile (\<lambda>c. c \<noteq> CHR ''-'') configId)))\<rparr>"
    using split_on_second [of "CHR ''-''" configId]
    by (simp add: destructUserAssetConfigId_def split_on_first)
qed

text \<open>An ID without a hyphen, the empty ID, and IDs of three and of two parts.\<close>

theorem C4_destructUserAssetConfigId_witness:
  "destructUserAssetConfigId ''1234'' = Inl InvalidArgument
   \<and> destructUserAssetConfigId '''' = Inl InvalidArgument
   \<and> destructUserAssetConfigId ''12-34-56'' = Inr \<lparr>UserAssetConfigIdParts.userId = Some ''12'', UserAssetConfigIdParts.assetId = Some ''34''\<rparr>
   \<and> destructUserAssetConfigId ''12-34'' = Inr \<lparr>UserAssetConfigIdParts.userId = Some ''12'', UserAssetConfigIdParts.assetId = Some ''34''\<rparr>"
  using C4_destructUserAssetConfigId [of "''1234''"] C4_destructUserAssetConfigId [of "''''"]
    C4_destructUserAssetConfigId [of "''12-34-56''"] C4_destructUserAssetConfigId [of "''12-34''"]
  by simp

section \<open>Asset IDs and token addresses\<close>



























lemma example_address: "hex_address ''0x00000000000000000000000000000000000000AB''"
  by (simp add: hex_address_def digit_value_def)

lemma example_asset_id:
  "getAssetIdFromAddress hex_address ''0x00000000000000000000000000000000000000AB'' = Inr ''171''"
  by (simp add: getAssetIdFromAddress_def example_address and_then_def from_string_def
      unsign_def unsigned_literal_def numeral_value_def digit_value_def toString_def render_def
      digits.simps digit_char_def)



section \<open>The subgraph query\<close>

lemma has_errors_iff:
  "has_errors body \<longleftrightarrow> (\<exists>c e es. body = Some c \<and> errors c = Some (e # es))"
  by (auto simp: has_errors_def neq_Nil_conv split: option.splits)

lemma query_Inr_iff:
  "query fetched = Inr body \<longleftrightarrow>
     (\<exists>r. fetched = Inr r \<and> 200 \<le> status r \<and> status r \<le> 299 \<and> json r = Inr body
          \<and> \<not> has_errors body)"
proof (cases fetched)
  case (Inl e)
  then show ?thesis
    by (simp add: query_def and_then_def)
next
  case (Inr r)
  show ?thesis
  proof (cases "200 \<le> status r \<and> status r \<le> 299")
    case False
    with Inr show ?thesis
      by (auto simp: query_def and_then_def)
  next
    case True
    with Inr show ?thesis
      by (cases "json r") (auto simp: query_def and_then_def)
  qed
qed

lemma query_Inl_cases:
  assumes "query fetched = Inl err"
  shows "(\<exists>m. err = SubgraphQueryError m) \<or> fetched = Inl err
          \<or> (\<exists>r. fetched = Inr r \<and> json r = Inl err)"
proof (cases fetched)
  case (Inl e)
  with assms show ?thesis
    by (simp add: query_def and_then_def)
next
  case (Inr r)
  show ?thesis
  proof (cases "200 \<le> status r \<and> status r \<le> 299")
    case False
    with Inr assms show ?thesis
      by (auto simp: query_def and_then_def)
  next
    case True
    with Inr assms show ?thesis
      by (cases "json r") (auto simp: query_def and_then_def split: if_splits)
  qed
qed

lemma no_errors_iff:
  "\<not> has_errors body \<longleftrightarrow> (\<forall>c. body = Some c \<longrightarrow> errors c = None \<or> errors c = Some [])"
proof (cases body)
  case None
  then show ?thesis by (simp add: has_errors_def)
next
  case (Some c)
  show ?thesis
  proof (cases "errors c")
    case None
    with Some show ?thesis by (simp add: has_errors_def)
  next
    case (Some es)
    with \<open>body = Some c\<close> show ?thesis by (cases es) (simp_all add: has_errors_def)
  qed
qed

text \<open>
  Claim C8. Once \<^verbatim>\<open>fetch\<close> has answered, \<^verbatim>\<open>query\<close> resolves with the parsed body when
  the status is from 200 to 299 and the body has no \<^verbatim>\<open>errors\<close> array or an empty one, and
  throws \<^verbatim>\<open>DripsErrors.subgraphQueryError\<close> when the status is outside 200 to 299 or the
  \<^verbatim>\<open>errors\<close> array is not empty. Every other error that leaves \<^verbatim>\<open>query\<close> is the rejection
  of \<^verbatim>\<open>fetch\<close> or of \<^verbatim>\<open>resp.json()\<close>, and \<^verbatim>\<open>query\<close> resolves in no other case.
\<close>

theorem C8_query:
  "(fetched = Inr resp \<and> 200 \<le> status resp \<and> status resp \<le> 299 \<and> json resp = Inr body
      \<and> (\<forall>c. body = Some c \<longrightarrow> errors c = None \<or> errors c = Some [])
      \<longrightarrow> query fetched = Inr body)
   \<and> (fetched = Inr resp \<and> \<not> (200 \<le> status resp \<and> status resp \<le> 299)
      \<longrightarrow> (\<exists>m. query fetched = Inl (SubgraphQueryError m)))
   \<and> (fetched = Inr resp \<and> 200 \<le> status resp \<and> status resp \<le> 299 \<and> json resp = Inr (Some c)
      \<and> errors c = Some (e # es)
      \<longrightarrow> (\<exists>m. query fetched = Inl (SubgraphQueryError m)))
   \<and> (query fetched = Inl err
      \<longrightarrow> (\<exists>m. err = SubgraphQueryError m) \<or> fetched = Inl err
          \<or> (\<exists>r. fetched = Inr r \<and> json r = Inl err))
   \<and> (query fetched = Inr body
      \<longrightarrow> (\<exists>r. fetched = Inr r \<and> 200 \<le> status r \<and> status r \<le> 299 \<and> json r = Inr body
               \<and> (\<forall>c. body = Some c \<longrightarrow> errors c = None \<or> errors c = Some [])))"
proof (intro conjI impI)
  assume "fetched = Inr resp \<and> 200 \<le> status resp \<and> status resp \<le> 299 \<and> json resp = Inr body
      \<and> (\<forall>c. body = Some c \<longrightarrow> errors c = None \<or> errors c = Some [])"
  then show "query fetched = Inr body"
    unfolding query_Inr_iff no_errors_iff by blast
next
  assume "fetched = Inr resp \<and> \<not> (200 \<le> status resp \<and> status resp \<le> 299)"
  then show "\<exists>m. query fetched = Inl (SubgraphQueryError m)"
    by (auto simp: query_def and_then_def)
next
  assume a: "fetched = Inr resp \<and> 200 \<le> status resp \<and> status resp \<le> 299 \<and> json resp = Inr (Some c)
      \<and> errors c = Some (e # es)"
  then have "has_errors (Some c)"
    by (simp add: has_errors_def)
  with a show "\<exists>m. query fetched = Inl (SubgraphQueryError m)"
    by (simp add: query_def and_then_def)
next
  assume "query fetched = Inl err"
  then show "(\<exists>m. err = SubgraphQueryError m) \<or> fetched = Inl err
          \<or> (\<exists>r. fetched = Inr r \<and> json r = Inl err)"
    by (rule query_Inl_cases)
next
  assume "query fetched = Inr body"
  then show "\<exists>r. fetched = Inr r \<and> 200 \<le> status r \<and> status r \<le> 299 \<and> json r = Inr body
               \<and> (\<forall>c. body = Some c \<longrightarrow> errors c = None \<or> errors c = Some [])"
    unfolding query_Inr_iff no_errors_iff .
qed

text \<open>A good answer, an answer with status 500, and an answer that lists an error.\<close>

theorem C8_query_witness:
  "query (Inr \<lparr>status = 200, statusText = ''OK'',
               json = Inr (Some \<lparr>data = Some (1::nat), errors = Some []\<rparr>)\<rparr>)
     = Inr (Some \<lparr>data = Some 1, errors = Some []\<rparr>)
   \<and> (\<exists>m. query (Inr \<lparr>status = 500, statusText = ''Internal Server Error'',
               json = Inr (Some \<lparr>data = Some (1::nat), errors = None\<rparr>)\<rparr>)
          = Inl (SubgraphQueryError m))
   \<and> (\<exists>m. query (Inr \<lparr>status = 200, statusText = ''OK'',
               json = Inr (Some \<lparr>data = Some (1::nat), errors = Some [''{}'']\<rparr>)\<rparr>)
          = Inl (SubgraphQueryError m))"
proof (intro conjI)
  show "query (Inr \<lparr>status = 200, statusText = ''OK'',
               json = Inr (Some \<lparr>data = Some (1::nat), errors = Some []\<rparr>)\<rparr>)
     = Inr (Some \<lparr>data = Some 1, errors = Some []\<rparr>)"
    by (rule C8_query [where resp = "\<lparr>status = 200, statusText = ''OK'',
               json = Inr (Some \<lparr>data = Some (1::nat), errors = Some []\<rparr>)\<rparr>",
             THEN conjunct1, THEN mp]) simp
  show "\<exists>m. query (Inr \<lparr>status = 500, statusText = ''Internal Server Error'',
               json = Inr (Some \<lparr>data = Some (1::nat), errors = None\<rparr>)\<rparr>)
          = Inl (SubgraphQueryError m)"
    by (rule C8_query [where resp = "\<lparr>status = 500, statusText = ''Internal Server Error'',
               json = Inr (Some \<lparr>data = Some (1::nat), errors = None\<rparr>)\<rparr>",
             THEN conjunct2, THEN conjunct1, THEN mp]) simp
  show "\<exists>m. query (Inr \<lparr>status = 200, statusText = ''OK'',
               json = Inr (Some \<lparr>data = Some (1::nat), errors = Some [''{}'']\<rparr>)\<rparr>)
          = Inl (SubgraphQueryError m)"
    by (rule C8_query [where resp = "\<lparr>status = 200, statusText = ''OK'',
               json = Inr (Some \<lparr>data = Some (1::nat), errors = Some [''{}'']\<rparr>)\<rparr>"
             and c = "\<lparr>data = Some (1::nat), errors = Some [''{}'']\<rparr>"
             and e = "''{}''" and es = "[]",
             THEN conjunct2, THEN conjunct2, THEN conjunct1, THEN mp]) simp
qed

section \<open>The arguments for squeezing\<close>

subsection \<open>Numbers and dates\<close>












subsection \<open>The selection loop\<close>














subsection \<open>The history items\<close>

lemma map_err_Inr:
  "map_err f xs = Inr ys \<longleftrightarrow> list_all2 (\<lambda>x y. f x = Inr y) xs ys"
proof (induction xs arbitrary: ys)
  case Nil
  then show ?case by auto
next
  case (Cons x xs)
  show ?case
  proof (cases "f x")
    case (Inl e)
    then show ?thesis
      by (auto simp: and_then_def list_all2_Cons1)
  next
    case fx: (Inr y)
    show ?thesis
    proof (cases "map_err f xs")
      case (Inl e)
      with fx Cons show ?thesis
        by (auto simp: and_then_def list_all2_Cons1)
    next
      case (Inr zs)
      with fx Cons show ?thesis
        by (auto simp: and_then_def list_all2_Cons1)
    qed
  qed
qed

lemma shouldSqueeze_Inr:
  assumes "shouldSqueeze getId u tok a rs = Inr b"
  shows "b \<longleftrightarrow> (\<exists>r \<in> set rs. receiverUserId r = u) \<and> getId tok = Inr a"
  using assms
proof (induction rs)
  case Nil
  then show ?case by simp
next
  case (Cons r rs)
  show ?case
  proof (cases "receiverUserId r = u")
    case False
    with Cons show ?thesis by simp
  next
    case True
    show ?thesis
    proof (cases "getId tok")
      case (Inl e)
      with True Cons.prems show ?thesis
        by (simp add: and_then_def)
    next
      case (Inr t)
      show ?thesis
      proof (cases "a = t")
        case same: True
        with True Inr Cons.prems show ?thesis
          by (simp add: and_then_def)
      next
        case diff: False
        with True Inr Cons.prems have "shouldSqueeze getId u tok a rs = Inr b"
          by (simp add: and_then_def)
        then have "b \<longleftrightarrow> (\<exists>r \<in> set rs. receiverUserId r = u) \<and> getId tok = Inr a"
          by (rule Cons.IH)
        with Inr diff show ?thesis
          by simp
      qed
    qed
  qed
qed

lemma shouldSqueeze_total:
  assumes "getId tok = Inr t"
  shows "\<exists>b. shouldSqueeze getId u tok a rs = Inr b"
  using assms by (induction rs) (auto simp: and_then_def)

lemma historyItem_Inr:
  assumes "historyItem getId u tok e = Inr h"
  shows "updateTime h = blockTimestamp e
       \<and> DripsHistoryStruct.maxEnd h = DripsSetEvent.maxEnd e
       \<and> (if (\<exists>r \<in> set (dripsReceiverSeenEvents e). receiverUserId r = u)
               \<and> getId tok = Inr (assetId e)
           then dripsHash h = HashZero
              \<and> receivers h = map (\<lambda>r. \<lparr>userId = receiverUserId r,
                                          config = DripsReceiverSeenEvent.config r\<rparr>)
                                  (dripsReceiverSeenEvents e)
           else dripsHash h = receiversHash e \<and> receivers h = [])"
proof -
  from assms obtain b where
    b: "shouldSqueeze getId u tok (assetId e) (dripsReceiverSeenEvents e) = Inr b"
    by (cases "shouldSqueeze getId u tok (assetId e) (dripsReceiverSeenEvents e)")
       (simp_all add: historyItem_def and_then_def)
  have "b \<longleftrightarrow> (\<exists>r \<in> set (dripsReceiverSeenEvents e). receiverUserId r = u)
               \<and> getId tok = Inr (assetId e)"
    using b by (rule shouldSqueeze_Inr)
  with assms b show ?thesis
    by (auto simp: historyItem_def and_then_def)
qed

lemma historyItem_total:
  assumes "getId tok = Inr t"
  shows "\<exists>h. historyItem getId u tok e = Inr h"
proof -
  obtain b where "shouldSqueeze getId u tok (assetId e) (dripsReceiverSeenEvents e) = Inr b"
    using shouldSqueeze_total [of getId tok t u "assetId e" "dripsReceiverSeenEvents e"] assms
    by blast
  then show ?thesis
    by (simp add: historyItem_def and_then_def)
qed

lemma map_err_total:
  assumes "\<And>x. \<exists>y. f x = Inr y"
  shows "\<exists>ys. map_err f xs = Inr ys"
proof (induction xs)
  case Nil
  then show ?case by simp
next
  case (Cons x xs)
  then obtain ys where "map_err f xs = Inr ys" by blast
  moreover obtain y where "f x = Inr y" using assms by blast
  ultimately show ?case by (simp add: and_then_def)
qed

lemma getArgs_Inr:
  assumes "getArgsForSqueezingAllDrips getId cs evs u sender tok = Inr (u', tok', sender', hh, dh)"
  shows "u' = u \<and> tok' = tok \<and> sender' = sender
       \<and> hh = historyHash (squeezableDripsSetEvents cs (sortDesc evs))
       \<and> list_all2 (\<lambda>e h. historyItem getId u tok e = Inr h)
            (rev (squeezableDripsSetEvents cs (sortDesc evs))) dh"
proof -
  let ?sel = "squeezableDripsSetEvents cs (sortDesc evs)"
  from assms obtain items where
    items: "map_err (historyItem getId u tok) ?sel = Inr items" and
    res: "(u', tok', sender', hh, dh) = (u, tok, sender, historyHash ?sel, rev items)"
    by (cases "map_err (historyItem getId u tok) ?sel")
       (auto simp: getArgsForSqueezingAllDrips_def Let_def and_then_def)
  from items have "list_all2 (\<lambda>e h. historyItem getId u tok e = Inr h) ?sel items"
    by (simp only: map_err_Inr)
  then have "list_all2 (\<lambda>e h. historyItem getId u tok e = Inr h) (rev ?sel) (rev items)"
    by (simp only: list_all2_rev)
  with res show ?thesis
    by simp
qed

lemma getArgs_total:
  assumes "getId tok = Inr t"
  shows "\<exists>dh. getArgsForSqueezingAllDrips getId cs evs u sender tok =
           Inr (u, tok, sender, historyHash (squeezableDripsSetEvents cs (sortDesc evs)), dh)"
proof -
  obtain items where
    "map_err (historyItem getId u tok) (squeezableDripsSetEvents cs (sortDesc evs)) = Inr items"
    using map_err_total [of "historyItem getId u tok"] historyItem_total [of getId tok t u] assms
    by blast
  then show ?thesis
    by (simp add: getArgsForSqueezingAllDrips_def Let_def and_then_def)
qed

subsection \<open>Selection, items and hash\<close>




text \<open>
  Claim C6. In every item of the returned history, a hash that is not the zero hash comes
  with an empty list of receivers, and a list of receivers that is not empty comes with
  the zero hash. The item of a selected event has receivers exactly when the event has a
  \<^verbatim>\<open>DripsReceiverSeen\<close> entry whose receiver is the given user and the asset of the event is
  the asset ID of the given token address.
\<close>

theorem C6_history_items:
  assumes "getArgsForSqueezingAllDrips getIdFromAddress currentCycleStartDate dripsSetEvents
             userId' senderId tokenAddress = Inr (a1, a2, a3, hash, dripsHistory)"
  shows "(\<forall>h \<in> set dripsHistory.
            (dripsHash h \<noteq> HashZero \<longrightarrow> receivers h = [])
          \<and> (receivers h \<noteq> [] \<longrightarrow> dripsHash h = HashZero))
       \<and> list_all2 (\<lambda>e h. receivers h \<noteq> [] \<longleftrightarrow>
                      (\<exists>r \<in> set (dripsReceiverSeenEvents e). receiverUserId r = userId')
                    \<and> getIdFromAddress tokenAddress = Inr (assetId e))
            (rev (squeezableDripsSetEvents currentCycleStartDate (sortDesc dripsSetEvents)))
            dripsHistory"
proof -
  let ?sel = "squeezableDripsSetEvents currentCycleStartDate (sortDesc dripsSetEvents)"
  have items: "list_all2 (\<lambda>e h. historyItem getIdFromAddress userId' tokenAddress e = Inr h)
                 (rev ?sel) dripsHistory"
    using getArgs_Inr [OF assms] by simp
  have wf: "\<forall>h \<in> set dripsHistory.
            (dripsHash h \<noteq> HashZero \<longrightarrow> receivers h = [])
          \<and> (receivers h \<noteq> [] \<longrightarrow> dripsHash h = HashZero)"
  proof
    fix h
    assume "h \<in> set dripsHistory"
    then obtain e where "historyItem getIdFromAddress userId' tokenAddress e = Inr h"
      using items by (auto simp: list_all2_conv_all_nth in_set_conv_nth)
    from historyItem_Inr [OF this]
    show "(dripsHash h \<noteq> HashZero \<longrightarrow> receivers h = [])
          \<and> (receivers h \<noteq> [] \<longrightarrow> dripsHash h = HashZero)"
      by (auto split: if_splits)
  qed
  have "list_all2 (\<lambda>e h. receivers h \<noteq> [] \<longleftrightarrow>
                      (\<exists>r \<in> set (dripsReceiverSeenEvents e). receiverUserId r = userId')
                    \<and> getIdFromAddress tokenAddress = Inr (assetId e))
            (rev ?sel) dripsHistory"
  proof (rule list_all2_mono [OF items])
    fix e h
    assume "historyItem getIdFromAddress userId' tokenAddress e = Inr h"
    from historyItem_Inr [OF this]
    show "receivers h \<noteq> [] \<longleftrightarrow>
                      (\<exists>r \<in> set (dripsReceiverSeenEvents e). receiverUserId r = userId')
                    \<and> getIdFromAddress tokenAddress = Inr (assetId e)"
      by (auto split: if_splits)
  qed
  with wf show ?thesis
    by blast
qed



subsection \<open>The examples\<close>


lemma example_sorted:
  "sortDesc example_events = [event_200, event_100, event_50, event_40]"
  by (simp add: sortDesc_def Number_def example_events_def event_100_def event_50_def
      event_200_def event_40_def)

lemma example_selected:
  "squeezableDripsSetEvents 90 (sortDesc example_events) = [event_200, event_100, event_50]"
  by (simp add: example_sorted)
     (simp add: Number_def new_Date_def date_ge_def event_100_def event_50_def event_200_def)

lemma example_items:
  "historyItem (getAssetIdFromAddress hex_address) ''7'' example_token event_200 = Inr item_200"
  "historyItem (getAssetIdFromAddress hex_address) ''7'' example_token event_100 = Inr item_100"
  "historyItem (getAssetIdFromAddress hex_address) ''7'' example_token event_50 = Inr item_50"
proof -
  have id: "getAssetIdFromAddress hex_address example_token = Inr ''171''"
    by (simp add: example_token_def example_asset_id)
  show "historyItem (getAssetIdFromAddress hex_address) ''7'' example_token event_200 = Inr item_200"
    by (simp add: historyItem_def and_then_def id event_200_def item_200_def)
  show "historyItem (getAssetIdFromAddress hex_address) ''7'' example_token event_100 = Inr item_100"
    by (simp add: historyItem_def and_then_def id event_100_def item_100_def)
  show "historyItem (getAssetIdFromAddress hex_address) ''7'' example_token event_50 = Inr item_50"
    by (simp add: historyItem_def and_then_def id event_50_def item_50_def)
qed

lemma example_args:
  "getArgsForSqueezingAllDrips (getAssetIdFromAddress hex_address) 90 example_events
       ''7'' ''3'' example_token
     = Inr (''7'', example_token, ''3'', ''0xb2'', example_history)"
proof -
  have "historyHash [event_200, event_100, event_50] = ''0xb2''"
    by (simp add: historyHash_def event_50_def)
  then show ?thesis
    by (simp add: getArgsForSqueezingAllDrips_def example_selected example_items and_then_def
        example_history_def)
qed



text \<open>On the example, only the event at 100 drips the asset of the token to user 7.\<close>

theorem C6_history_items_witness:
  "getArgsForSqueezingAllDrips (getAssetIdFromAddress hex_address) 90 example_events
       ''7'' ''3'' example_token
     = Inr (''7'', example_token, ''3'', ''0xb2'', example_history)
   \<and> map (\<lambda>h. (dripsHash h = HashZero, receivers h = [])) example_history
       = [(False, True), (True, False), (False, True)]
   \<and> list_all (\<lambda>h. dripsHash h = HashZero \<or> receivers h = []) example_history"
proof -
  from C6_history_items [OF example_args]
  have "\<forall>h \<in> set example_history. (dripsHash h \<noteq> HashZero \<longrightarrow> receivers h = [])"
    by blast
  then have "list_all (\<lambda>h. dripsHash h = HashZero \<or> receivers h = []) example_history"
    by (auto simp: list_all_iff)
  moreover have "map (\<lambda>h. (dripsHash h = HashZero, receivers h = [])) example_history
       = [(False, True), (True, False), (False, True)]"
    by (simp add: example_history_def item_50_def item_100_def item_200_def HashZero_def)
  ultimately show ?thesis
    using example_args by simp
qed


section \<open>Squeezable senders\<close>

lemma senderStep_agree:
  assumes "agree (sq, pr)"
  shows "senderStep (sq, pr) e =
           (if sq (senderUserId e) \<noteq> None then (sq, pr)
            else (sq(senderUserId e \<mapsto> [assetId (dripsSetEvent e)]),
                  pr(senderUserId e \<mapsto> True)))"
proof (cases "sq (senderUserId e)")
  case None
  then have "pr (senderUserId e) \<noteq> Some True"
    using assms by (simp add: agree_def)
  with None show ?thesis
    by (simp add: senderStep_def Let_def)
next
  case (Some l)
  then have "pr (senderUserId e) = Some True"
    using assms by (simp add: agree_def)
  with Some show ?thesis
    by (simp add: senderStep_def Let_def)
qed

lemma agree_step:
  assumes "agree (sq, pr)"
  shows "agree (senderStep (sq, pr) e)"
  using assms by (simp add: senderStep_agree) (simp add: agree_def)

lemma senders_loop:
  assumes "agree (sq, pr)"
  shows "fst (foldl senderStep (sq, pr) evs) k =
           (case sq k of
              Some l \<Rightarrow> Some l
            | None \<Rightarrow> (case find (\<lambda>e. senderUserId e = k) evs of
                         None \<Rightarrow> None
                       | Some e \<Rightarrow> Some [assetId (dripsSetEvent e)]))"
  using assms
proof (induction evs arbitrary: sq pr)
  case Nil
  then show ?case by (simp split: option.splits)
next
  case (Cons e evs)
  obtain sq' pr' where st: "senderStep (sq, pr) e = (sq', pr')"
    by (cases "senderStep (sq, pr) e")
  have ag: "agree (sq', pr')"
    using agree_step [OF Cons.prems, of e] by (simp add: st)
  have sq': "sq' = (if sq (senderUserId e) \<noteq> None then sq
                    else sq(senderUserId e \<mapsto> [assetId (dripsSetEvent e)]))"
    using senderStep_agree [OF Cons.prems, of e] by (simp add: st split: if_splits)
  have "fst (foldl senderStep (sq, pr) (e # evs)) k = fst (foldl senderStep (sq', pr') evs) k"
    by (simp add: st)
  also have "\<dots> = (case sq' k of
              Some l \<Rightarrow> Some l
            | None \<Rightarrow> (case find (\<lambda>e. senderUserId e = k) evs of
                         None \<Rightarrow> None
                       | Some e \<Rightarrow> Some [assetId (dripsSetEvent e)]))"
    by (rule Cons.IH [OF ag])
  also have "\<dots> = (case sq k of
              Some l \<Rightarrow> Some l
            | None \<Rightarrow> (case find (\<lambda>e. senderUserId e = k) (e # evs) of
                         None \<Rightarrow> None
                       | Some e \<Rightarrow> Some [assetId (dripsSetEvent e)]))"
    by (simp add: sq' split: option.splits)
  finally show ?case .
qed

lemma senders_result:
  "getSqueezableSenders (Some events) sender =
     (case find (\<lambda>e. senderUserId e = sender) events of
        None \<Rightarrow> None
      | Some e \<Rightarrow> Some [assetId (dripsSetEvent e)])"
proof (cases events)
  case Nil
  then show ?thesis by (simp add: getSqueezableSenders_def)
next
  case (Cons e es)
  have "agree (Map.empty, Map.empty)"
    by (simp add: agree_def)
  then have "fst (foldl senderStep (Map.empty, Map.empty) events) sender =
     (case find (\<lambda>e. senderUserId e = sender) events of
        None \<Rightarrow> None
      | Some e \<Rightarrow> Some [assetId (dripsSetEvent e)])"
    by (simp add: senders_loop)
  with Cons show ?thesis
    by (simp add: getSqueezableSenders_def)
qed

lemma senders_keys:
  "dom (getSqueezableSenders (Some events)) = senderUserId ` set events"
proof -
  have "\<And>k. (find (\<lambda>e. senderUserId e = k) events = None) = (k \<notin> senderUserId ` set events)"
    by (auto simp: find_None_iff)
  then show ?thesis
    by (auto simp: dom_def senders_result split: option.splits)
qed

text \<open>
  Claim C10. For every list of \<^verbatim>\<open>DripsReceiverSeen\<close> events, the record that
  \<^verbatim>\<open>getSqueezableSenders\<close> returns has one key for each sender of the list and no other
  key, and the value at a sender is a list of exactly one asset ID: the asset of the
  first event of that sender in the list, whatever the assets of its later events are.
\<close>

theorem C10_getSqueezableSenders:
  "getSqueezableSenders (Some events) sender =
     (case find (\<lambda>e. senderUserId e = sender) events of
        None \<Rightarrow> None
      | Some e \<Rightarrow> Some [assetId (dripsSetEvent e)])
   \<and> dom (getSqueezableSenders (Some events)) = senderUserId ` set events"
  by (simp only: senders_result senders_keys)

text \<open>Sender 1 has events for the assets 100 and 200: only 100 is listed.\<close>

theorem C10_getSqueezableSenders_witness:
  "map (getSqueezableSenders (Some
     [\<lparr>senderUserId = ''1'', receiverUserId = ''9'', config = 5, dripsSetEvent = \<lparr>assetId = ''100''\<rparr>\<rparr>,
      \<lparr>senderUserId = ''2'', receiverUserId = ''9'', config = 5, dripsSetEvent = \<lparr>assetId = ''100''\<rparr>\<rparr>,
      \<lparr>senderUserId = ''1'', receiverUserId = ''9'', config = 5, dripsSetEvent = \<lparr>assetId = ''200''\<rparr>\<rparr>]))
     [''1'', ''2'', ''3'']
   = [Some [''100''], Some [''100''], None]"
  by (simp add: C10_getSqueezableSenders [THEN conjunct1])

end
